theory Spec2Isabelle
  imports Main "HOL-Library.Char_ord" "HOL-Library.List_Lexorder"
begin

section \<open>Strings\<close>

text \<open>
  A Go string is a sequence of bytes, here a \<^typ>\<open>string\<close>.  The functions of package
  \<^verbatim>\<open>strings\<close> that the code calls are written out on bytes.  \<^verbatim>\<open>sort.Strings\<close> is
  \<^const>\<open>sort\<close> on the lexicographic order of byte lists, the order of Go's \<^verbatim>\<open><\<close> on strings.
\<close>

definition HasPrefix :: "string \<Rightarrow> string \<Rightarrow> bool" where
  "HasPrefix s p = (take (length p) s = p)"

definition HasSuffix :: "string \<Rightarrow> string \<Rightarrow> bool" where
  "HasSuffix s suf = (length suf \<le> length s \<and> drop (length s - length suf) s = suf)"

fun Contains :: "string \<Rightarrow> string \<Rightarrow> bool" where
  "Contains [] substr = (substr = [])"
| "Contains (c # s) substr = (HasPrefix (c # s) substr \<or> Contains s substr)"

text \<open>
  The UTF-8 encodings of the code points for which \<^verbatim>\<open>unicode.IsSpace\<close> holds: tab, line
  feed, vertical tab, form feed, carriage return, space, U+0085, U+00A0, U+1680,
  U+2000 to U+200A, U+2028, U+2029, U+202F, U+205F and U+3000.  Each starts with an ASCII
  byte or a leading byte, never with a continuation byte, so that one of them begins at a
  position exactly when the rune decoded there is white space.
\<close>

definition whiteSpace :: "string list" where
  "whiteSpace =
    [[CHR 0x09], [CHR 0x0A], [CHR 0x0B], [CHR 0x0C], [CHR 0x0D], [CHR 0x20],
     [CHR 0xC2, CHR 0x85], [CHR 0xC2, CHR 0xA0],
     [CHR 0xE1, CHR 0x9A, CHR 0x80],
     [CHR 0xE2, CHR 0x80, CHR 0x80], [CHR 0xE2, CHR 0x80, CHR 0x81],
     [CHR 0xE2, CHR 0x80, CHR 0x82], [CHR 0xE2, CHR 0x80, CHR 0x83],
     [CHR 0xE2, CHR 0x80, CHR 0x84], [CHR 0xE2, CHR 0x80, CHR 0x85],
     [CHR 0xE2, CHR 0x80, CHR 0x86], [CHR 0xE2, CHR 0x80, CHR 0x87],
     [CHR 0xE2, CHR 0x80, CHR 0x88], [CHR 0xE2, CHR 0x80, CHR 0x89],
     [CHR 0xE2, CHR 0x80, CHR 0x8A],
     [CHR 0xE2, CHR 0x80, CHR 0xA8], [CHR 0xE2, CHR 0x80, CHR 0xA9],
     [CHR 0xE2, CHR 0x80, CHR 0xAF], [CHR 0xE2, CHR 0x81, CHR 0x9F],
     [CHR 0xE3, CHR 0x80, CHR 0x80]]"

text \<open>The number of bytes of the white-space rune a string starts or ends with, 0 for none.\<close>

definition leadingSpace :: "string \<Rightarrow> nat" where
  "leadingSpace s = (case find (HasPrefix s) whiteSpace of None \<Rightarrow> 0 | Some w \<Rightarrow> length w)"

definition trailingSpace :: "string \<Rightarrow> nat" where
  "trailingSpace s = (case find (HasSuffix s) whiteSpace of None \<Rightarrow> 0 | Some w \<Rightarrow> length w)"

fun TrimLeft :: "string \<Rightarrow> string" where
  "TrimLeft [] = []"
| "TrimLeft (c # s) =
    (if leadingSpace (c # s) = 0 then c # s else TrimLeft (drop (leadingSpace (c # s) - 1) s))"

function TrimRight :: "string \<Rightarrow> string" where
  "TrimRight s =
    (if s = [] \<or> trailingSpace s = 0 then s
     else TrimRight (take (length s - trailingSpace s) s))"
  by pat_completeness auto
termination
  by (relation "measure length") auto

definition TrimSpace :: "string \<Rightarrow> string" where
  "TrimSpace s = TrimRight (TrimLeft s)"

text \<open>
  \<^verbatim>\<open>strings.Fields\<close>: the maximal runs of bytes between white space.  The first argument
  is the field being read.
\<close>

fun Fields_from :: "string \<Rightarrow> string \<Rightarrow> string list" where
  "Fields_from cur [] = (if cur = [] then [] else [cur])"
| "Fields_from cur (c # s) =
    (if leadingSpace (c # s) = 0 then Fields_from (cur @ [c]) s
     else (if cur = [] then [] else [cur]) @ Fields_from [] (drop (leadingSpace (c # s) - 1) s))"

definition Fields :: "string \<Rightarrow> string list" where
  "Fields s = Fields_from [] s"

section \<open>Go maps\<close>

text \<open>
  A Go map is a finite partial function.  A \<^verbatim>\<open>range\<close> loop visits its keys in an order
  that Go leaves open and that may differ from one loop to the next; every function with
  such a loop takes the order of that run as a list of keys, and \<open>range_order\<close> says that
  the list is an enumeration of the map's keys.
\<close>

definition range_order :: "'k list \<Rightarrow> ('k \<rightharpoonup> 'v) \<Rightarrow> bool" where
  "range_order ks m = (distinct ks \<and> set ks = dom m)"

definition len_map :: "('k \<rightharpoonup> 'v) \<Rightarrow> int" where
  "len_map m = int (card (dom m))"

text \<open>\<^verbatim>\<open>m[k]++\<close> on a \<^verbatim>\<open>map[string]int\<close>: a missing key reads as 0.\<close>

definition increment :: "(string \<rightharpoonup> int) \<Rightarrow> string \<Rightarrow> (string \<rightharpoonup> int)" where
  "increment m k = m(k \<mapsto> (case m k of None \<Rightarrow> 0 | Some c \<Rightarrow> c) + 1)"

text \<open>\<^verbatim>\<open>m[k]\<close> on a \<^verbatim>\<open>map[string]bool\<close>: a missing key reads as false.\<close>

definition lookup_bool :: "(string \<rightharpoonup> bool) \<Rightarrow> string \<Rightarrow> bool" where
  "lookup_bool m k = (case m k of None \<Rightarrow> False | Some b \<Rightarrow> b)"

section \<open>Package parser\<close>

text \<open>
  The part of \<^verbatim>\<open>modfile.File\<close> that the code reads.  \<open>Module\<close> is \<^verbatim>\<open>Module.Mod.Path\<close>, or
  \<open>None\<close> where the \<^verbatim>\<open>Module\<close> pointer is nil (a manifest with no module line); \<open>Go\<close> is
  \<^verbatim>\<open>Go.Version\<close>, or \<open>None\<close> where the \<^verbatim>\<open>Go\<close> pointer is nil.
\<close>

record ModRequire =
  Mod_Path :: string
  Mod_Version :: string
  Indirect :: bool

record ModFile =
  Module :: "string option"
  Go :: "string option"
  Require :: "ModRequire list"

definition GetDirectDependencies :: "ModFile \<Rightarrow> string list" where
  "GetDirectDependencies modFile =
    foldl (\<lambda>deps require. if \<not> Indirect require then deps @ [Mod_Path require] else deps)
      [] (Require modFile)"

record GoSumEntry =
  ModulePath :: string
  Version :: string
  Hash :: string

text \<open>
  What the file system and the \<^verbatim>\<open>bufio.Scanner\<close> give \<open>ParseGoSum\<close>: either \<^verbatim>\<open>os.Open\<close>
  fails, or the scanner yields lines until it stops, and \<^verbatim>\<open>scanner.Err()\<close> is then nil
  (end of file) or an error.
\<close>

datatype open_error = ErrNotExist | ErrPermission | ErrOpenOther

datatype scan_error = ErrTooLong | ErrRead

datatype go_sum_file = OpenFails open_error | Opened "string list" "scan_error option"

datatype failure =
  NilPointerDereference
  | ErrorReadingGoSum scan_error
  | FailedToParseGoSum failure

text \<open>The body of the scanner loop of \<open>ParseGoSum\<close>.\<close>

definition ParseGoSum_line :: "(string \<rightharpoonup> GoSumEntry) \<Rightarrow> string \<Rightarrow> (string \<rightharpoonup> GoSumEntry)" where
  "ParseGoSum_line entries text =
    (let line = TrimSpace text in
     if line = [] then entries
     else
       let parts = Fields line in
       if length parts < 3 then entries
       else
         let modulePath = parts ! 0; version = parts ! 1; hash = parts ! 2 in
         if \<not> HasSuffix version ''/go.mod''
         then entries(modulePath @ ''@'' @ version \<mapsto>
                \<lparr>ModulePath = modulePath, Version = version, Hash = hash\<rparr>)
         else entries)"

definition ParseGoSum :: "go_sum_file \<Rightarrow> failure + (string \<rightharpoonup> GoSumEntry)" where
  "ParseGoSum file =
    (case file of
       OpenFails err \<Rightarrow> Inr Map.empty
     | Opened lines err \<Rightarrow>
        (let entries = foldl ParseGoSum_line Map.empty lines in
         case err of
           Some e \<Rightarrow> Inl (ErrorReadingGoSum e)
         | None \<Rightarrow> Inr entries))"

text \<open>
  \<open>GetTransitiveDependencies\<close>: the loop over \<open>goSumEntries\<close> in the order \<open>ks\<close>, with the
  slice \<open>transitive\<close> and the map \<open>seenModules\<close> as its state.
\<close>

primrec GetTransitiveDependencies_loop ::
  "string list \<Rightarrow> (string \<rightharpoonup> GoSumEntry) \<Rightarrow> (string \<rightharpoonup> bool) \<Rightarrow>
     GoSumEntry list \<times> (string \<rightharpoonup> bool) \<Rightarrow> GoSumEntry list \<times> (string \<rightharpoonup> bool)" where
  "GetTransitiveDependencies_loop [] goSumEntries directDepMap st = st"
| "GetTransitiveDependencies_loop (k # ks) goSumEntries directDepMap st =
    GetTransitiveDependencies_loop ks goSumEntries directDepMap
      (case goSumEntries k of
         None \<Rightarrow> st
       | Some entry \<Rightarrow>
          (case st of (transitive, seenModules) \<Rightarrow>
            if \<not> lookup_bool directDepMap (ModulePath entry)
               \<and> \<not> lookup_bool seenModules (ModulePath entry)
            then (transitive @ [entry], seenModules(ModulePath entry \<mapsto> True))
            else st))"

definition GetTransitiveDependencies ::
  "string list \<Rightarrow> (string \<rightharpoonup> GoSumEntry) \<Rightarrow> string list \<Rightarrow> GoSumEntry list" where
  "GetTransitiveDependencies ks goSumEntries directDeps =
    (let directDepMap = foldl (\<lambda>m dep. m(dep \<mapsto> True)) Map.empty directDeps in
     fst (GetTransitiveDependencies_loop ks goSumEntries directDepMap ([], Map.empty)))"

section \<open>Package graph: the base graph\<close>

text \<open>
  \<open>Node\<close> objects are reached through pointers and the root's \<open>Children\<close> slice grows
  after the root was stored in \<open>AllNodes\<close>, so the objects live in a store: the list
  \<open>Heap\<close>, a pointer being an index into it.  Allocation appends to the list.
\<close>

type_synonym addr = nat

record Node =
  Name :: string
  Version :: string
  Direct :: bool
  Children :: "addr list"

record DependencyGraph =
  Heap :: "Node list"
  Root :: addr
  AllNodes :: "string \<rightharpoonup> addr"
  ModuleName :: string
  ModuleGoVersion :: string

text \<open>The body of the loop of \<open>BuildDependencyGraph\<close> over \<^verbatim>\<open>modFile.Require\<close>.\<close>

definition BuildDependencyGraph_require :: "DependencyGraph \<Rightarrow> ModRequire \<Rightarrow> DependencyGraph" where
  "BuildDependencyGraph_require graph require =
    (let node = \<lparr>Name = Mod_Path require, Version = Mod_Version require,
                  Direct = (\<not> Indirect require), Children = []\<rparr>;
         p = length (Heap graph);
         graph = graph\<lparr>Heap := Heap graph @ [node]\<rparr>;
         graph = graph\<lparr>AllNodes := (AllNodes graph)(Name node \<mapsto> p)\<rparr>
     in if \<not> Indirect require
        then
          let root = Heap graph ! Root graph
          in graph\<lparr>Heap := (Heap graph)[Root graph := root\<lparr>Children := Children root @ [p]\<rparr>]\<rparr>
        else graph)"

definition BuildDependencyGraph :: "ModFile \<Rightarrow> failure + DependencyGraph" where
  "BuildDependencyGraph modFile =
    (case Module modFile of
       None \<Rightarrow> Inl NilPointerDereference
     | Some path \<Rightarrow>
        (let root = \<lparr>Name = path, Version = ''main'', Direct = True, Children = []\<rparr>;
             graph = \<lparr>Heap = [root], Root = 0, AllNodes = [Name root \<mapsto> 0],
                      ModuleName = path,
                      ModuleGoVersion = (case Go modFile of None \<Rightarrow> [] | Some v \<Rightarrow> v)\<rparr>
         in Inr (foldl BuildDependencyGraph_require graph (Require modFile))))"

text \<open>\<open>GetDependencyCount\<close>, the loop over \<open>AllNodes\<close> in the order \<open>ks\<close>.\<close>

definition GetDependencyCount_node ::
  "('a DependencyGraph_scheme) \<Rightarrow> int \<times> int \<Rightarrow> string \<Rightarrow> int \<times> int" where
  "GetDependencyCount_node g counts k =
    (case AllNodes g k of
       None \<Rightarrow> counts
     | Some p \<Rightarrow>
        (case counts of (direct, indirect) \<Rightarrow>
          let node = Heap g ! p in
          if Name node \<noteq> Name (Heap g ! Root g)
          then (if Direct node then (direct + 1, indirect) else (direct, indirect + 1))
          else counts))"

definition GetDependencyCount :: "string list \<Rightarrow> ('a DependencyGraph_scheme) \<Rightarrow> int \<times> int" where
  "GetDependencyCount ks g = foldl (GetDependencyCount_node g) (0, 0) ks"

section \<open>Package graph: the enhanced graph\<close>

record VersionConflict =
  ModulePath :: string
  CurrentVersion :: string
  ConflictVersion :: string
  Reason :: string

record SecurityIssue =
  ID :: string
  Severity :: string
  Description :: string
  FixedIn :: string

text \<open>
  Every \<open>EnhancedNode\<close> object is pointed to from one place only, its entry in
  \<open>EnhancedNodes\<close>, so the map holds the objects themselves and a write through the
  pointer is an update of the entry.  \<open>Node\<close> is the embedded pointer to the base node;
  \<open>Transitive\<close> (a slice of pointers that stays empty) lists keys of \<open>EnhancedNodes\<close>;
  \<open>LastUpdate\<close> is a \<^verbatim>\<open>time.Time\<close> in nanoseconds from its zero value.
\<close>

record EnhancedNode =
  Node :: addr
  Hash :: string
  Transitive :: "string list"
  Conflicts :: "VersionConflict list"
  SecurityIssues :: "SecurityIssue list"
  License :: string
  LastUpdate :: int
  IsOutdated :: bool
  UpdateAvailable :: string

record EnhancedDependencyGraph = DependencyGraph +
  EnhancedNodes :: "string \<rightharpoonup> EnhancedNode"
  GoSumEntries :: "string \<rightharpoonup> GoSumEntry"
  Conflicts :: "VersionConflict list"
  SecurityIssues :: "SecurityIssue list"
  TotalSize :: int
  BuildTime :: int
  LicensesSummary :: "string \<rightharpoonup> int"

text \<open>The first loop of \<open>BuildEnhancedDependencyGraph\<close>, over \<open>basicGraph.AllNodes\<close>.\<close>

definition BuildEnhanced_node :: "EnhancedDependencyGraph \<Rightarrow> string \<Rightarrow> EnhancedDependencyGraph" where
  "BuildEnhanced_node enhancedGraph name =
    (case AllNodes enhancedGraph name of
       None \<Rightarrow> enhancedGraph
     | Some node \<Rightarrow>
        (let enhancedNode = \<lparr>Node = node, Hash = [], Transitive = [],
                             EnhancedNode.Conflicts = [], EnhancedNode.SecurityIssues = [],
                             License = [], LastUpdate = 0, IsOutdated = False,
                             UpdateAvailable = []\<rparr>;
             key = name @ ''@'' @ Node.Version (Heap enhancedGraph ! node);
             enhancedNode =
               (case GoSumEntries enhancedGraph key of
                  Some entry \<Rightarrow> enhancedNode\<lparr>Hash := GoSumEntry.Hash entry\<rparr>
                | None \<Rightarrow> enhancedNode)
         in enhancedGraph\<lparr>EnhancedNodes := (EnhancedNodes enhancedGraph)(name \<mapsto> enhancedNode)\<rparr>))"

text \<open>The second loop, over the slice \<open>transitiveDeps\<close>.\<close>

definition BuildEnhanced_transitive :: "EnhancedDependencyGraph \<Rightarrow> GoSumEntry \<Rightarrow> EnhancedDependencyGraph" where
  "BuildEnhanced_transitive enhancedGraph transDep =
    (case EnhancedNodes enhancedGraph (GoSumEntry.ModulePath transDep) of
       Some existing \<Rightarrow> enhancedGraph
     | None \<Rightarrow>
        (let node = \<lparr>Name = GoSumEntry.ModulePath transDep, Version = GoSumEntry.Version transDep,
                      Direct = False, Children = []\<rparr>;
             p = length (Heap enhancedGraph);
             enhancedNode = \<lparr>Node = p, Hash = GoSumEntry.Hash transDep, Transitive = [],
                             EnhancedNode.Conflicts = [], EnhancedNode.SecurityIssues = [],
                             License = [], LastUpdate = 0, IsOutdated = False,
                             UpdateAvailable = []\<rparr>
         in enhancedGraph\<lparr>Heap := Heap enhancedGraph @ [node],
              EnhancedNodes :=
                (EnhancedNodes enhancedGraph)(GoSumEntry.ModulePath transDep \<mapsto> enhancedNode),
              AllNodes := (AllNodes enhancedGraph)(GoSumEntry.ModulePath transDep \<mapsto> p)\<rparr>))"

text \<open>
  \<open>BuildEnhancedDependencyGraph\<close>; \<open>ks\<^sub>1\<close> is the order of the loop over
  \<open>basicGraph.AllNodes\<close> and \<open>ks\<^sub>2\<close> that of the loop over \<open>goSumEntries\<close> in
  \<open>GetTransitiveDependencies\<close>.
\<close>

definition BuildEnhancedDependencyGraph ::
  "ModFile \<Rightarrow> go_sum_file \<Rightarrow> string list \<Rightarrow> string list \<Rightarrow> failure + EnhancedDependencyGraph" where
  "BuildEnhancedDependencyGraph modFile goSum ks\<^sub>1 ks\<^sub>2 =
    (case BuildDependencyGraph modFile of
       Inl panic \<Rightarrow> Inl panic
     | Inr basicGraph \<Rightarrow>
        (case ParseGoSum goSum of
           Inl err \<Rightarrow> Inl (FailedToParseGoSum err)
         | Inr goSumEntries \<Rightarrow>
            (let enhancedGraph =
                   \<lparr>Heap = Heap basicGraph, Root = Root basicGraph,
                    AllNodes = AllNodes basicGraph, ModuleName = ModuleName basicGraph,
                    ModuleGoVersion = ModuleGoVersion basicGraph,
                    EnhancedNodes = Map.empty, GoSumEntries = goSumEntries,
                    Conflicts = [], SecurityIssues = [], TotalSize = 0, BuildTime = 0,
                    LicensesSummary = Map.empty\<rparr>;
                 enhancedGraph = foldl BuildEnhanced_node enhancedGraph ks\<^sub>1;
                 directDeps = GetDirectDependencies modFile;
                 transitiveDeps = GetTransitiveDependencies ks\<^sub>2 goSumEntries directDeps
             in Inr (foldl BuildEnhanced_transitive enhancedGraph transitiveDeps))))"

section \<open>Conflict detection\<close>

text \<open>The body of the first loop of \<open>DetectVersionConflicts\<close>, over \<open>g.GoSumEntries\<close>.\<close>

definition DetectVersionConflicts_collect ::
  "(string \<rightharpoonup> GoSumEntry) \<Rightarrow> (string \<rightharpoonup> string list) \<Rightarrow> string \<Rightarrow> (string \<rightharpoonup> string list)" where
  "DetectVersionConflicts_collect goSumEntries versionMap k =
    (case goSumEntries k of
       None \<Rightarrow> versionMap
     | Some entry \<Rightarrow>
        versionMap(GoSumEntry.ModulePath entry \<mapsto>
          (case versionMap (GoSumEntry.ModulePath entry) of None \<Rightarrow> [] | Some vs \<Rightarrow> vs)
            @ [GoSumEntry.Version entry]))"

text \<open>The body of the inner loop, at index \<open>i\<close> of the sorted \<open>versions\<close>.\<close>

definition DetectVersionConflicts_emit ::
  "string \<Rightarrow> string list \<Rightarrow> EnhancedDependencyGraph \<Rightarrow> nat \<Rightarrow> EnhancedDependencyGraph" where
  "DetectVersionConflicts_emit modulePath versions g i =
    (let conflict = \<lparr>ModulePath = modulePath,
                      CurrentVersion = versions ! (length versions - 1),
                      ConflictVersion = versions ! i,
                      Reason = ''Multiple versions in go.sum''\<rparr>;
         g = g\<lparr>Conflicts := Conflicts g @ [conflict]\<rparr>
     in case EnhancedNodes g modulePath of
          Some node \<Rightarrow>
            g\<lparr>EnhancedNodes := (EnhancedNodes g)(modulePath \<mapsto>
                 node\<lparr>EnhancedNode.Conflicts := EnhancedNode.Conflicts node @ [conflict]\<rparr>)\<rparr>
        | None \<Rightarrow> g)"

text \<open>The body of the second loop, over \<open>versionMap\<close>.\<close>

definition DetectVersionConflicts_path ::
  "(string \<rightharpoonup> string list) \<Rightarrow> EnhancedDependencyGraph \<Rightarrow> string \<Rightarrow> EnhancedDependencyGraph" where
  "DetectVersionConflicts_path versionMap g modulePath =
    (case versionMap modulePath of
       None \<Rightarrow> g
     | Some versions \<Rightarrow>
        if length versions > 1
        then
          let versions = sort versions
          in foldl (DetectVersionConflicts_emit modulePath versions) g [0..<length versions - 1]
        else g)"

text \<open>
  \<open>DetectVersionConflicts\<close>; \<open>ks\<^sub>1\<close> is the order of the loop over \<open>g.GoSumEntries\<close> and
  \<open>ks\<^sub>2\<close> that of the loop over \<open>versionMap\<close>.
\<close>

definition versionMap_of :: "string list \<Rightarrow> (string \<rightharpoonup> GoSumEntry) \<Rightarrow> (string \<rightharpoonup> string list)" where
  "versionMap_of ks\<^sub>1 goSumEntries =
    foldl (DetectVersionConflicts_collect goSumEntries) Map.empty ks\<^sub>1"

definition DetectVersionConflicts ::
  "string list \<Rightarrow> string list \<Rightarrow> EnhancedDependencyGraph \<Rightarrow> EnhancedDependencyGraph" where
  "DetectVersionConflicts ks\<^sub>1 ks\<^sub>2 g =
    (let versionMap = versionMap_of ks\<^sub>1 (GoSumEntries g)
     in foldl (DetectVersionConflicts_path versionMap) g ks\<^sub>2)"

section \<open>License classification\<close>

definition knownLicenses :: "string \<rightharpoonup> string" where
  "knownLicenses = map_of
    [(''github.com/spf13/cobra'', ''Apache-2.0''),
     (''github.com/spf13/pflag'', ''BSD-3-Clause''),
     (''github.com/awalterschulze/gographviz'', ''Apache-2.0''),
     (''github.com/inconshreveable/mousetrap'', ''Apache-2.0''),
     (''golang.org/x/mod'', ''BSD-3-Clause''),
     (''gopkg.in/yaml.v3'', ''Apache-2.0''),
     (''github.com/google/licensecheck'', ''BSD-3-Clause''),
     (''github.com/fatih/color'', ''MIT'')]"

text \<open>
  The two statements every branch of the loop body consists of:
  \<^verbatim>\<open>node.License = license\<close> and \<^verbatim>\<open>g.LicensesSummary[license]++\<close>.
\<close>

definition AnalyzeLicenses_set ::
  "string \<Rightarrow> EnhancedNode \<Rightarrow> string \<Rightarrow> EnhancedDependencyGraph \<Rightarrow> EnhancedDependencyGraph" where
  "AnalyzeLicenses_set name node license g =
    g\<lparr>EnhancedNodes := (EnhancedNodes g)(name \<mapsto> node\<lparr>License := license\<rparr>),
      LicensesSummary := increment (LicensesSummary g) license\<rparr>"

text \<open>The body of the loop of \<open>AnalyzeLicenses\<close> over \<open>g.EnhancedNodes\<close>.\<close>

definition AnalyzeLicenses_node :: "EnhancedDependencyGraph \<Rightarrow> string \<Rightarrow> EnhancedDependencyGraph" where
  "AnalyzeLicenses_node g name =
    (case EnhancedNodes g name of
       None \<Rightarrow> g
     | Some node \<Rightarrow>
        (case knownLicenses name of
           Some license \<Rightarrow> AnalyzeLicenses_set name node license g
         | None \<Rightarrow>
            if Contains name ''golang.org/x/'' then AnalyzeLicenses_set name node ''BSD-3-Clause'' g
            else if Contains name ''github.com/mattn/'' then AnalyzeLicenses_set name node ''MIT'' g
            else AnalyzeLicenses_set name node ''Unknown'' g))"

text \<open>\<open>AnalyzeLicenses\<close> (its error result is always nil); \<open>ks\<close> is the order of its loop.\<close>

definition AnalyzeLicenses :: "string list \<Rightarrow> EnhancedDependencyGraph \<Rightarrow> EnhancedDependencyGraph" where
  "AnalyzeLicenses ks g = foldl AnalyzeLicenses_node g ks"

section \<open>Security heuristics\<close>

definition vulnerablePatterns :: "string \<rightharpoonup> SecurityIssue" where
  "vulnerablePatterns = map_of
    [(''github.com/gin-gonic/gin'',
        \<lparr>ID = ''GHSA-example'', Severity = ''MEDIUM'',
         Description = ''Check for latest version with security fixes'',
         FixedIn = ''v1.9.1+''\<rparr>),
     (''github.com/gorilla/websocket'',
        \<lparr>ID = ''CVE-2023-example'', Severity = ''HIGH'',
         Description = ''WebSocket vulnerability in older versions'',
         FixedIn = ''v1.5.0+''\<rparr>)]"

definition insecurePatterns :: "string list" where
  "insecurePatterns = [''crypto/md5'', ''crypto/sha1'', ''net/http/httputil'']"

definition devVersionIssue :: SecurityIssue where
  "devVersionIssue =
    \<lparr>ID = ''DEV-VERSION'', Severity = ''LOW'',
     Description = ''Development version detected in dependencies'',
     FixedIn = ''Use stable release version''\<rparr>"

definition oldVersionIssue :: SecurityIssue where
  "oldVersionIssue =
    \<lparr>ID = ''OLD-VERSION'', Severity = ''MEDIUM'',
     Description = ''Very old package version may have security vulnerabilities'',
     FixedIn = ''Update to latest version''\<rparr>"

definition insecureCryptoIssue :: SecurityIssue where
  "insecureCryptoIssue =
    \<lparr>ID = ''INSECURE-CRYPTO'', Severity = ''HIGH'',
     Description = ''Package uses insecure cryptographic functions'',
     FixedIn = ''Use secure alternatives (SHA-256, bcrypt, etc.)''\<rparr>"

definition noVersionIssue :: SecurityIssue where
  "noVersionIssue =
    \<lparr>ID = ''NO-VERSION'', Severity = ''LOW'',
     Description = ''Package without proper versioning detected'',
     FixedIn = ''Use properly versioned packages''\<rparr>"

text \<open>
  The two statements that follow every rule that fires:
  \<^verbatim>\<open>node.SecurityIssues = append(node.SecurityIssues, issue)\<close> and
  \<^verbatim>\<open>g.SecurityIssues = append(g.SecurityIssues, issue)\<close>, the node being the one that
  \<open>EnhancedNodes\<close> holds under \<open>name\<close>.
\<close>

definition CheckSecurity_append ::
  "string \<Rightarrow> SecurityIssue \<Rightarrow> EnhancedDependencyGraph \<Rightarrow> EnhancedDependencyGraph" where
  "CheckSecurity_append name issue g =
    (case EnhancedNodes g name of
       None \<Rightarrow> g
     | Some node \<Rightarrow>
        g\<lparr>EnhancedNodes := (EnhancedNodes g)(name \<mapsto>
             node\<lparr>EnhancedNode.SecurityIssues := EnhancedNode.SecurityIssues node @ [issue]\<rparr>),
          SecurityIssues := SecurityIssues g @ [issue]\<rparr>)"

text \<open>The body of the loop of \<open>CheckSecurity\<close> over \<open>g.EnhancedNodes\<close>.\<close>

definition CheckSecurity_node :: "EnhancedDependencyGraph \<Rightarrow> string \<Rightarrow> EnhancedDependencyGraph" where
  "CheckSecurity_node g name =
    (case EnhancedNodes g name of
       None \<Rightarrow> g
     | Some node \<Rightarrow>
        if name = Name (Heap g ! Root g) then g
        else
          let version = Node.Version (Heap g ! Node node);
              g = (case vulnerablePatterns name of
                     Some issue \<Rightarrow>
                       if Contains version ''v1.8'' \<or> Contains version ''v1.7''
                          \<or> Contains version ''v1.4''
                       then CheckSecurity_append name issue g else g
                   | None \<Rightarrow> g);
              g = (if Contains version ''dev'' \<or> Contains version ''alpha''
                      \<or> Contains version ''beta'' \<or> Contains version ''rc''
                      \<or> Contains version ''snapshot''
                   then CheckSecurity_append name devVersionIssue g else g);
              g = (if Contains version ''20161208'' \<or> Contains version ''20170''
                      \<or> Contains version ''20180''
                   then CheckSecurity_append name oldVersionIssue g else g);
              g = foldl (\<lambda>g pattern.
                     if Contains name pattern
                     then CheckSecurity_append name insecureCryptoIssue g else g)
                   g insecurePatterns
          in if version = [] \<or> version = ''v0.0.0''
             then CheckSecurity_append name noVersionIssue g else g)"

text \<open>\<open>CheckSecurity\<close> (its error result is always nil); \<open>ks\<close> is the order of its loop.\<close>

definition CheckSecurity :: "string list \<Rightarrow> EnhancedDependencyGraph \<Rightarrow> EnhancedDependencyGraph" where
  "CheckSecurity ks g = foldl CheckSecurity_node g ks"

section \<open>Statistics\<close>

text \<open>The values of the \<^verbatim>\<open>map[string]any\<close> that \<open>GetStatistics\<close> returns.\<close>

datatype any = IntValue int | MapValue "string \<rightharpoonup> int"

text \<open>\<open>GetStatistics\<close>; \<open>ks\<close> is the order of the loop of \<open>GetDependencyCount\<close>.\<close>

definition GetStatistics :: "string list \<Rightarrow> EnhancedDependencyGraph \<Rightarrow> (string \<rightharpoonup> any)" where
  "GetStatistics ks g =
    (case GetDependencyCount ks g of (direct, indirect) \<Rightarrow>
      let transitive = len_map (GoSumEntries g) - direct - indirect
      in [''total_dependencies'' \<mapsto> IntValue (len_map (AllNodes g) - 1),
          ''direct_dependencies'' \<mapsto> IntValue direct,
          ''indirect_dependencies'' \<mapsto> IntValue indirect,
          ''transitive_dependencies'' \<mapsto> IntValue transitive,
          ''version_conflicts'' \<mapsto> IntValue (int (length (Conflicts g))),
          ''security_issues'' \<mapsto> IntValue (int (length (SecurityIssues g))),
          ''unique_licenses'' \<mapsto> IntValue (len_map (LicensesSummary g)),
          ''licenses_breakdown'' \<mapsto> MapValue (LicensesSummary g)])"

section \<open>Well-formed graphs\<close>

text \<open>
  No pointer of a graph dangles, and \<open>AllNodes\<close> holds every node under its own name.
  The builders establish this and the analysis passes keep it.
\<close>

definition wf_graph :: "('a DependencyGraph_scheme) \<Rightarrow> bool" where
  "wf_graph g =
    (Root g < length (Heap g)
     \<and> (\<forall>k p. AllNodes g k = Some p \<longrightarrow> p < length (Heap g) \<and> Name (Heap g ! p) = k))"

text \<open>
  For an enhanced graph, moreover, every enhanced node is stored under the key of its
  base node.
\<close>

definition wf_enhanced :: "EnhancedDependencyGraph \<Rightarrow> bool" where
  "wf_enhanced g =
    (wf_graph g
     \<and> dom (EnhancedNodes g) = dom (AllNodes g)
     \<and> (\<forall>k n. EnhancedNodes g k = Some n \<longrightarrow> AllNodes g k = Some (Node n)))"

text \<open>
  The first entry with a given module path in an order of the lock entries: the one that
  \<open>GetTransitiveDependencies\<close> keeps for that path.
\<close>

definition representative ::
  "string list \<Rightarrow> (string \<rightharpoonup> GoSumEntry) \<Rightarrow> string \<Rightarrow> GoSumEntry option" where
  "representative ks goSumEntries path =
    (case find (\<lambda>k. case goSumEntries k of
                       None \<Rightarrow> False
                     | Some e \<Rightarrow> GoSumEntry.ModulePath e = path) ks of
       None \<Rightarrow> None
     | Some k \<Rightarrow> goSumEntries k)"

text \<open>The module paths that occur in the lock entries.\<close>

definition lock_paths :: "(string \<rightharpoonup> GoSumEntry) \<Rightarrow> string set" where
  "lock_paths goSumEntries = GoSumEntry.ModulePath ` ran goSumEntries"

text \<open>
  The node and the enhanced node that \<open>BuildEnhanced_transitive\<close> makes for a lock entry,
  the node being stored at \<open>a\<close>.
\<close>

definition synth_node :: "GoSumEntry \<Rightarrow> Node" where
  "synth_node t =
    \<lparr>Name = GoSumEntry.ModulePath t, Version = GoSumEntry.Version t, Direct = False,
     Children = []\<rparr>"

definition synth_enhanced :: "addr \<Rightarrow> GoSumEntry \<Rightarrow> EnhancedNode" where
  "synth_enhanced a t =
    \<lparr>Node = a, Hash = GoSumEntry.Hash t, Transitive = [],
     EnhancedNode.Conflicts = [], EnhancedNode.SecurityIssues = [],
     License = [], LastUpdate = 0, IsOutdated = False, UpdateAvailable = []\<rparr>"

section \<open>Example inputs\<close>

text \<open>
  A manifest with one direct and one indirect requirement, and a lock file with an entry
  for each of them and for a third module that the manifest does not declare.
\<close>

definition scenario_manifest :: ModFile where
  "scenario_manifest =
    \<lparr>Module = Some ''example.com/app'', Go = Some ''1.21'',
     Require = [\<lparr>Mod_Path = ''moduleA'', Mod_Version = ''v1.2.0'', Indirect = False\<rparr>,
                \<lparr>Mod_Path = ''moduleB'', Mod_Version = ''v0.3.0'', Indirect = True\<rparr>]\<rparr>"

definition scenario_lock :: go_sum_file where
  "scenario_lock =
    Opened [''moduleA v1.2.0 h1:aaa='', ''moduleA v1.2.0/go.mod h1:aab='',
            ''moduleB v0.3.0 h1:bbb='', ''moduleC v1.0.0 h1:ccc=''] None"

definition scenario_entries :: "string \<rightharpoonup> GoSumEntry" where
  "scenario_entries =
    [''moduleA@v1.2.0'' \<mapsto> \<lparr>GoSumEntry.ModulePath = ''moduleA'', GoSumEntry.Version = ''v1.2.0'', GoSumEntry.Hash = ''h1:aaa=''\<rparr>,
     ''moduleB@v0.3.0'' \<mapsto> \<lparr>GoSumEntry.ModulePath = ''moduleB'', GoSumEntry.Version = ''v0.3.0'', GoSumEntry.Hash = ''h1:bbb=''\<rparr>,
     ''moduleC@v1.0.0'' \<mapsto> \<lparr>GoSumEntry.ModulePath = ''moduleC'', GoSumEntry.Version = ''v1.0.0'', GoSumEntry.Hash = ''h1:ccc=''\<rparr>]"

definition scenario_nodes_order :: "string list" where
  "scenario_nodes_order = [''example.com/app'', ''moduleA'', ''moduleB'']"

definition scenario_lock_order :: "string list" where
  "scenario_lock_order = [''moduleC@v1.0.0'', ''moduleA@v1.2.0'', ''moduleB@v0.3.0'']"

definition scenario_base :: DependencyGraph where
  "scenario_base =
    \<lparr>Heap = [\<lparr>Name = ''example.com/app'', Version = ''main'', Direct = True, Children = [1]\<rparr>,
             \<lparr>Name = ''moduleA'', Version = ''v1.2.0'', Direct = True, Children = []\<rparr>,
             \<lparr>Name = ''moduleB'', Version = ''v0.3.0'', Direct = False, Children = []\<rparr>],
     Root = 0,
     AllNodes = [''example.com/app'' \<mapsto> 0, ''moduleA'' \<mapsto> 1, ''moduleB'' \<mapsto> 2],
     ModuleName = ''example.com/app'', ModuleGoVersion = ''1.21''\<rparr>"

definition plain_enhanced :: "addr \<Rightarrow> string \<Rightarrow> EnhancedNode" where
  "plain_enhanced a h =
    \<lparr>Node = a, Hash = h, Transitive = [],
     EnhancedNode.Conflicts = [], EnhancedNode.SecurityIssues = [],
     License = [], LastUpdate = 0, IsOutdated = False, UpdateAvailable = []\<rparr>"

definition scenario_graph :: EnhancedDependencyGraph where
  "scenario_graph =
    \<lparr>Heap = [\<lparr>Name = ''example.com/app'', Version = ''main'', Direct = True, Children = [1]\<rparr>,
             \<lparr>Name = ''moduleA'', Version = ''v1.2.0'', Direct = True, Children = []\<rparr>,
             \<lparr>Name = ''moduleB'', Version = ''v0.3.0'', Direct = False, Children = []\<rparr>,
             \<lparr>Name = ''moduleC'', Version = ''v1.0.0'', Direct = False, Children = []\<rparr>],
     Root = 0,
     AllNodes = [''example.com/app'' \<mapsto> 0, ''moduleA'' \<mapsto> 1, ''moduleB'' \<mapsto> 2,
                 ''moduleC'' \<mapsto> 3],
     ModuleName = ''example.com/app'', ModuleGoVersion = ''1.21'',
     EnhancedNodes = [''example.com/app'' \<mapsto> plain_enhanced 0 [],
                      ''moduleA'' \<mapsto> plain_enhanced 1 ''h1:aaa='',
                      ''moduleB'' \<mapsto> plain_enhanced 2 ''h1:bbb='',
                      ''moduleC'' \<mapsto> plain_enhanced 3 ''h1:ccc=''],
     GoSumEntries = scenario_entries,
     Conflicts = [], SecurityIssues = [], TotalSize = 0, BuildTime = 0,
     LicensesSummary = Map.empty\<rparr>"

section \<open>The base graph\<close>

lemma require_Root [simp]: "Root (BuildDependencyGraph_require g r) = Root g"
  by (simp add: BuildDependencyGraph_require_def Let_def)

lemma require_length [simp]:
  "length (Heap (BuildDependencyGraph_require g r)) = Suc (length (Heap g))"
  by (simp add: BuildDependencyGraph_require_def Let_def)

lemma require_AllNodes [simp]:
  "AllNodes (BuildDependencyGraph_require g r) = (AllNodes g)(Mod_Path r \<mapsto> length (Heap g))"
  by (simp add: BuildDependencyGraph_require_def Let_def)

lemma require_new:
  "Root g < length (Heap g) \<Longrightarrow>
   Heap (BuildDependencyGraph_require g r) ! length (Heap g) =
     \<lparr>Name = Mod_Path r, Version = Mod_Version r, Direct = (\<not> Indirect r), Children = []\<rparr>"
  by (simp add: BuildDependencyGraph_require_def Let_def nth_append)

lemma require_old:
  "p < length (Heap g) \<Longrightarrow> p \<noteq> Root g \<Longrightarrow>
   Heap (BuildDependencyGraph_require g r) ! p = Heap g ! p"
  by (simp add: BuildDependencyGraph_require_def Let_def nth_append)

lemma require_root:
  "Root g < length (Heap g) \<Longrightarrow>
   Heap (BuildDependencyGraph_require g r) ! Root g =
     (Heap g ! Root g)\<lparr>Children := Children (Heap g ! Root g)
        @ (if Indirect r then [] else [length (Heap g)])\<rparr>"
  by (simp add: BuildDependencyGraph_require_def Let_def nth_append)

lemma require_Name:
  "Root g < length (Heap g) \<Longrightarrow> p < length (Heap g) \<Longrightarrow>
   Name (Heap (BuildDependencyGraph_require g r) ! p) = Name (Heap g ! p)"
  by (cases "p = Root g") (simp_all add: require_root require_old)


lemma build_Root [simp]: "Root (foldl BuildDependencyGraph_require g rs) = Root g"
  by (induction rs arbitrary: g) simp_all

lemma build_length [simp]:
  "length (Heap (foldl BuildDependencyGraph_require g rs)) = length (Heap g) + length rs"
  by (induction rs arbitrary: g) simp_all

lemma build_dom:
  "dom (AllNodes (foldl BuildDependencyGraph_require g rs)) = dom (AllNodes g) \<union> Mod_Path ` set rs"
  by (induction rs arbitrary: g) auto

lemma require_wf: "wf_graph g \<Longrightarrow> wf_graph (BuildDependencyGraph_require g r)"
  unfolding wf_graph_def
proof (intro conjI allI impI)
  assume wf: "Root g < length (Heap g) \<and>
    (\<forall>k p. AllNodes g k = Some p \<longrightarrow> p < length (Heap g) \<and> Name (Heap g ! p) = k)"
  show "Root (BuildDependencyGraph_require g r) < length (Heap (BuildDependencyGraph_require g r))"
    using wf by simp
  fix k p
  assume kp: "AllNodes (BuildDependencyGraph_require g r) k = Some p"
  show "p < length (Heap (BuildDependencyGraph_require g r))"
    using wf kp by (auto split: if_splits simp: less_Suc_eq)
  show "Name (Heap (BuildDependencyGraph_require g r) ! p) = k"
  proof (cases "k = Mod_Path r")
    case True
    then have "p = length (Heap g)" using kp by simp
    then show ?thesis using wf True by (simp add: require_new)
  next
    case False
    then have "AllNodes g k = Some p" using kp by simp
    then show ?thesis using wf by (simp add: require_Name)
  qed
qed

lemma build_wf: "wf_graph g \<Longrightarrow> wf_graph (foldl BuildDependencyGraph_require g rs)"
  by (induction rs arbitrary: g) (simp_all add: require_wf)

lemma build_root:
  "Root g < length (Heap g) \<Longrightarrow>
   Name (Heap (foldl BuildDependencyGraph_require g rs) ! Root g) = Name (Heap g ! Root g) \<and>
   Node.Version (Heap (foldl BuildDependencyGraph_require g rs) ! Root g)
     = Node.Version (Heap g ! Root g) \<and>
   Direct (Heap (foldl BuildDependencyGraph_require g rs) ! Root g) = Direct (Heap g ! Root g) \<and>
   length (Children (Heap (foldl BuildDependencyGraph_require g rs) ! Root g))
     = length (Children (Heap g ! Root g)) + length (filter (\<lambda>r. \<not> Indirect r) rs)"
proof (induction rs arbitrary: g)
  case Nil
  then show ?case by simp
next
  case (Cons r rs)
  have "Root (BuildDependencyGraph_require g r) < length (Heap (BuildDependencyGraph_require g r))"
    using Cons.prems by simp
  from Cons.IH [OF this] show ?case
    using Cons.prems by (simp add: require_root)
qed

lemma build_root_entry:
  "AllNodes g path = Some p \<Longrightarrow> path \<notin> Mod_Path ` set rs \<Longrightarrow>
   AllNodes (foldl BuildDependencyGraph_require g rs) path = Some p"
  by (induction rs arbitrary: g) auto

text \<open>
  C5.  For a manifest with a module line whose requirement paths are distinct from each
  other and from the module's own path, with N direct and M indirect requirements,
  \<open>BuildDependencyGraph\<close> returns a graph whose \<open>AllNodes\<close> has N + M + 1 keys, whose root
  has N children, where every key of \<open>AllNodes\<close> holds a node of that name (so that
  different keys hold nodes of different names), and whose root is stored under the
  module path with that name, version \<open>main\<close> and \<open>Direct\<close> set.
\<close>

theorem C5_base_graph:
  assumes m: "Module modFile = Some path"
    and d: "distinct (map Mod_Path (Require modFile))"
    and r: "path \<notin> Mod_Path ` set (Require modFile)"
  shows "\<exists>g. BuildDependencyGraph modFile = Inr g
    \<and> len_map (AllNodes g)
        = int (length (filter (\<lambda>r. \<not> Indirect r) (Require modFile)))
          + int (length (filter Indirect (Require modFile))) + 1
    \<and> length (Children (Heap g ! Root g))
        = length (filter (\<lambda>r. \<not> Indirect r) (Require modFile))
    \<and> (\<forall>k p. AllNodes g k = Some p \<longrightarrow> p < length (Heap g) \<and> Name (Heap g ! p) = k)
    \<and> (\<forall>k k' p p'. AllNodes g k = Some p \<and> AllNodes g k' = Some p' \<and> k \<noteq> k'
          \<longrightarrow> Name (Heap g ! p) \<noteq> Name (Heap g ! p'))
    \<and> AllNodes g path = Some (Root g)
    \<and> Name (Heap g ! Root g) = path
    \<and> Node.Version (Heap g ! Root g) = ''main''
    \<and> Direct (Heap g ! Root g)"
proof -
  define root where "root = \<lparr>Name = path, Version = ''main'', Direct = True, Children = []\<rparr>"
  define g0 where "g0 = \<lparr>Heap = [root], Root = 0, AllNodes = [Name root \<mapsto> 0],
     ModuleName = path, ModuleGoVersion = (case Go modFile of None \<Rightarrow> [] | Some v \<Rightarrow> v)\<rparr>"
  define g where "g = foldl BuildDependencyGraph_require g0 (Require modFile)"
  have build: "BuildDependencyGraph modFile = Inr g"
    by (simp add: BuildDependencyGraph_def m g_def g0_def root_def)
  have wf0: "wf_graph g0"
    by (auto simp: wf_graph_def g0_def root_def split: if_splits)
  have wf: "wf_graph g"
    unfolding g_def by (rule build_wf [OF wf0])
  have names: "\<forall>k p. AllNodes g k = Some p \<longrightarrow> p < length (Heap g) \<and> Name (Heap g ! p) = k"
    using wf by (simp add: wf_graph_def)
  have dom: "dom (AllNodes g) = insert path (Mod_Path ` set (Require modFile))"
    unfolding g_def build_dom by (simp add: g0_def root_def)
  have "card (Mod_Path ` set (Require modFile)) = length (Require modFile)"
    using d by (metis distinct_card length_map set_map)
  then have "card (dom (AllNodes g)) = Suc (length (Require modFile))"
    using r by (simp add: dom)
  moreover have "length (Require modFile)
      = length (filter (\<lambda>r. \<not> Indirect r) (Require modFile))
        + length (filter Indirect (Require modFile))"
    using sum_length_filter_compl [of Indirect "Require modFile"] by simp
  ultimately have count: "len_map (AllNodes g)
      = int (length (filter (\<lambda>r. \<not> Indirect r) (Require modFile)))
        + int (length (filter Indirect (Require modFile))) + 1"
    by (simp add: len_map_def)
  have r0: "Root g0 < length (Heap g0)" by (simp add: g0_def)
  have Rg: "Root g = Root g0" by (simp add: g_def)
  have root: "Name (Heap g ! Root g) = path \<and> Node.Version (Heap g ! Root g) = ''main''
      \<and> Direct (Heap g ! Root g)
      \<and> length (Children (Heap g ! Root g))
          = length (filter (\<lambda>r. \<not> Indirect r) (Require modFile))"
    using build_root [OF r0, of "Require modFile"]
    unfolding Rg g_def by (simp add: g0_def root_def)
  have entry: "AllNodes g path = Some (Root g)"
    unfolding g_def by (simp add: build_root_entry [OF _ r] g0_def root_def)
  have uniq: "\<forall>k k' p p'. AllNodes g k = Some p \<and> AllNodes g k' = Some p' \<and> k \<noteq> k'
      \<longrightarrow> Name (Heap g ! p) \<noteq> Name (Heap g ! p')"
    using names by metis
  show ?thesis
    using build count root names uniq entry by blast
qed

theorem C5_base_graph_witness:
  "Module scenario_manifest = Some ''example.com/app''
   \<and> distinct (map Mod_Path (Require scenario_manifest))
   \<and> ''example.com/app'' \<notin> Mod_Path ` set (Require scenario_manifest)
   \<and> (\<exists>g. BuildDependencyGraph scenario_manifest = Inr g
        \<and> len_map (AllNodes g) = 3
        \<and> length (Children (Heap g ! Root g)) = 1
        \<and> AllNodes g ''example.com/app'' = Some (Root g)
        \<and> Name (Heap g ! Root g) = ''example.com/app''
        \<and> Node.Version (Heap g ! Root g) = ''main''
        \<and> Direct (Heap g ! Root g))"
  using C5_base_graph [of scenario_manifest "''example.com/app''"]
  by (simp add: scenario_manifest_def) blast

section \<open>Enrichment\<close>



lemma transitive_loop_props:
  assumes "\<forall>p. lookup_bool seen p = (p \<in> GoSumEntry.ModulePath ` set ts)" and "distinct (map GoSumEntry.ModulePath ts)"
  shows "\<exists>new seen'. GetTransitiveDependencies_loop ks E D (ts, seen) = (ts @ new, seen')
    \<and> distinct (map GoSumEntry.ModulePath (ts @ new))
    \<and> (\<forall>e \<in> set new. representative ks E (GoSumEntry.ModulePath e) = Some e \<and> \<not> lookup_bool D (GoSumEntry.ModulePath e))
    \<and> GoSumEntry.ModulePath ` set (ts @ new) = GoSumEntry.ModulePath ` set ts
         \<union> {GoSumEntry.ModulePath e | k e. k \<in> set ks \<and> E k = Some e \<and> \<not> lookup_bool D (GoSumEntry.ModulePath e)}"
  using assms
proof (induction ks arbitrary: ts seen)
  case Nil
  then show ?case by simp
next
  case (Cons k ks)
  show ?case
  proof (cases "E k")
    case None
    from Cons.IH [OF Cons.prems] obtain new seen' where
      h: "GetTransitiveDependencies_loop ks E D (ts, seen) = (ts @ new, seen')"
         "distinct (map GoSumEntry.ModulePath (ts @ new))"
         "\<forall>e \<in> set new. representative ks E (GoSumEntry.ModulePath e) = Some e \<and> \<not> lookup_bool D (GoSumEntry.ModulePath e)"
         "GoSumEntry.ModulePath ` set (ts @ new) = GoSumEntry.ModulePath ` set ts
         \<union> {GoSumEntry.ModulePath e | k e. k \<in> set ks \<and> E k = Some e \<and> \<not> lookup_bool D (GoSumEntry.ModulePath e)}"
      by blast
    have "\<forall>e \<in> set new. representative (k # ks) E (GoSumEntry.ModulePath e) = Some e \<and> \<not> lookup_bool D (GoSumEntry.ModulePath e)"
      using h(3) None by (simp add: representative_def)
    moreover have "{GoSumEntry.ModulePath e | k' e. k' \<in> set (k # ks) \<and> E k' = Some e \<and> \<not> lookup_bool D (GoSumEntry.ModulePath e)}
       = {GoSumEntry.ModulePath e | k e. k \<in> set ks \<and> E k = Some e \<and> \<not> lookup_bool D (GoSumEntry.ModulePath e)}"
      using None by auto
    ultimately show ?thesis using h None by auto
  next
    case (Some e0)
    show ?thesis
    proof (cases "\<not> lookup_bool D (GoSumEntry.ModulePath e0) \<and> \<not> lookup_bool seen (GoSumEntry.ModulePath e0)")
      case True
      let ?ts = "ts @ [e0]" and ?seen = "seen(GoSumEntry.ModulePath e0 \<mapsto> True)"
      have inv: "\<forall>p. lookup_bool ?seen p = (p \<in> GoSumEntry.ModulePath ` set ?ts)"
        using Cons.prems(1) by (auto simp: lookup_bool_def)
      have dist: "distinct (map GoSumEntry.ModulePath ?ts)"
        using Cons.prems True by auto
      from Cons.IH [OF inv dist] obtain new seen' where
        h: "GetTransitiveDependencies_loop ks E D (?ts, ?seen) = (?ts @ new, seen')"
         "distinct (map GoSumEntry.ModulePath (?ts @ new))"
         "\<forall>e \<in> set new. representative ks E (GoSumEntry.ModulePath e) = Some e \<and> \<not> lookup_bool D (GoSumEntry.ModulePath e)"
         "GoSumEntry.ModulePath ` set (?ts @ new) = GoSumEntry.ModulePath ` set ?ts
         \<union> {GoSumEntry.ModulePath e | k e. k \<in> set ks \<and> E k = Some e \<and> \<not> lookup_bool D (GoSumEntry.ModulePath e)}"
        by blast
      have step: "GetTransitiveDependencies_loop (k # ks) E D (ts, seen) = (ts @ (e0 # new), seen')"
        using h(1) Some True by simp
      have rep: "\<forall>e \<in> set (e0 # new). representative (k # ks) E (GoSumEntry.ModulePath e) = Some e
          \<and> \<not> lookup_bool D (GoSumEntry.ModulePath e)"
      proof
        fix e assume e: "e \<in> set (e0 # new)"
        show "representative (k # ks) E (GoSumEntry.ModulePath e) = Some e \<and> \<not> lookup_bool D (GoSumEntry.ModulePath e)"
        proof (cases "e = e0")
          case True
          then show ?thesis using Some \<open>\<not> lookup_bool D (GoSumEntry.ModulePath e0) \<and> \<not> lookup_bool seen (GoSumEntry.ModulePath e0)\<close>
            by (simp add: representative_def)
        next
          case False
          then have en: "e \<in> set new" using e by simp
          then have "GoSumEntry.ModulePath e \<in> GoSumEntry.ModulePath ` set new" by simp
          then have "GoSumEntry.ModulePath e \<noteq> GoSumEntry.ModulePath e0" using h(2) by auto
          then show ?thesis using h(3) en Some by (simp add: representative_def)
        qed
      qed
      have paths: "GoSumEntry.ModulePath ` set (ts @ (e0 # new)) = GoSumEntry.ModulePath ` set ts
         \<union> {GoSumEntry.ModulePath e | k' e. k' \<in> set (k # ks) \<and> E k' = Some e \<and> \<not> lookup_bool D (GoSumEntry.ModulePath e)}"
        using h(4) Some True by auto
      show ?thesis using step h(2) rep paths by (intro exI [of _ "e0 # new"] exI [of _ seen']) simp
    next
      case False
      from Cons.IH [OF Cons.prems] obtain new seen' where
        h: "GetTransitiveDependencies_loop ks E D (ts, seen) = (ts @ new, seen')"
         "distinct (map GoSumEntry.ModulePath (ts @ new))"
         "\<forall>e \<in> set new. representative ks E (GoSumEntry.ModulePath e) = Some e \<and> \<not> lookup_bool D (GoSumEntry.ModulePath e)"
         "GoSumEntry.ModulePath ` set (ts @ new) = GoSumEntry.ModulePath ` set ts
         \<union> {GoSumEntry.ModulePath e | k e. k \<in> set ks \<and> E k = Some e \<and> \<not> lookup_bool D (GoSumEntry.ModulePath e)}"
        by blast
      have step: "GetTransitiveDependencies_loop (k # ks) E D (ts, seen) = (ts @ new, seen')"
        using h(1) Some False by auto
      have rep: "\<forall>e \<in> set new. representative (k # ks) E (GoSumEntry.ModulePath e) = Some e \<and> \<not> lookup_bool D (GoSumEntry.ModulePath e)"
      proof
        fix e assume en: "e \<in> set new"
        have "GoSumEntry.ModulePath e \<noteq> GoSumEntry.ModulePath e0"
        proof
          assume eq: "GoSumEntry.ModulePath e = GoSumEntry.ModulePath e0"
          have "\<not> lookup_bool D (GoSumEntry.ModulePath e)" using h(3) en by blast
          then have "lookup_bool seen (GoSumEntry.ModulePath e0)" using False eq by simp
          then have "GoSumEntry.ModulePath e \<in> GoSumEntry.ModulePath ` set ts" using Cons.prems(1) eq by simp
          moreover have "GoSumEntry.ModulePath e \<in> GoSumEntry.ModulePath ` set new" using en by simp
          ultimately show False using h(2) by auto
        qed
        then show "representative (k # ks) E (GoSumEntry.ModulePath e) = Some e \<and> \<not> lookup_bool D (GoSumEntry.ModulePath e)"
          using h(3) en Some by (simp add: representative_def)
      qed
      have "GoSumEntry.ModulePath e0 \<in> GoSumEntry.ModulePath ` set ts \<or> lookup_bool D (GoSumEntry.ModulePath e0)"
        using False Cons.prems(1) by auto
      then have paths: "GoSumEntry.ModulePath ` set (ts @ new) = GoSumEntry.ModulePath ` set ts
         \<union> {GoSumEntry.ModulePath e | k' e. k' \<in> set (k # ks) \<and> E k' = Some e \<and> \<not> lookup_bool D (GoSumEntry.ModulePath e)}"
        using h(4) Some by auto
      show ?thesis using step h(2) rep paths by blast
    qed
  qed
qed


lemma directDepMap_lookup:
  "lookup_bool (foldl (\<lambda>m dep. m(dep \<mapsto> True)) m0 deps) p
     = (p \<in> set deps \<or> lookup_bool m0 p)"
  by (induction deps arbitrary: m0) (auto simp: lookup_bool_def)

lemma GetDirectDependencies_eq:
  "GetDirectDependencies modFile = map Mod_Path (filter (\<lambda>r. \<not> Indirect r) (Require modFile))"
proof -
  have loop: "foldl (\<lambda>deps require. if \<not> Indirect require then deps @ [Mod_Path require] else deps)
          acc rs = acc @ map Mod_Path (filter (\<lambda>r. \<not> Indirect r) rs)" for acc rs
    by (induction rs arbitrary: acc) simp_all
  show ?thesis by (simp add: GetDirectDependencies_def loop)
qed

lemma range_order_paths:
  "range_order ks E \<Longrightarrow> {GoSumEntry.ModulePath e | k e. k \<in> set ks \<and> E k = Some e \<and> Q (GoSumEntry.ModulePath e)}
     = {p \<in> lock_paths E. Q p}"
  by (auto simp: range_order_def lock_paths_def ran_def)

lemma GetTransitiveDependencies_props:
  assumes "range_order ks E"
  shows "distinct (map GoSumEntry.ModulePath (GetTransitiveDependencies ks E deps))"
    and "\<forall>e \<in> set (GetTransitiveDependencies ks E deps).
           representative ks E (GoSumEntry.ModulePath e) = Some e \<and> GoSumEntry.ModulePath e \<notin> set deps"
    and "GoSumEntry.ModulePath ` set (GetTransitiveDependencies ks E deps) = lock_paths E - set deps"
proof -
  let ?D = "foldl (\<lambda>m dep. m(dep \<mapsto> True)) Map.empty deps"
  have D: "lookup_bool ?D p = (p \<in> set deps)" for p
    using directDepMap_lookup [of Map.empty deps p] by (simp add: lookup_bool_def)
  have "\<forall>p. lookup_bool Map.empty p = (p \<in> GoSumEntry.ModulePath ` set [])" "distinct (map GoSumEntry.ModulePath [])"
    by (simp_all add: lookup_bool_def)
  from transitive_loop_props [OF this, of ks E ?D] obtain new seen' where
    h: "GetTransitiveDependencies_loop ks E ?D ([], Map.empty) = (new, seen')"
       "distinct (map GoSumEntry.ModulePath new)"
       "\<forall>e \<in> set new. representative ks E (GoSumEntry.ModulePath e) = Some e \<and> \<not> lookup_bool ?D (GoSumEntry.ModulePath e)"
       "GoSumEntry.ModulePath ` set new = {GoSumEntry.ModulePath e | k e. k \<in> set ks \<and> E k = Some e \<and> \<not> lookup_bool ?D (GoSumEntry.ModulePath e)}"
    by auto
  have eq: "GetTransitiveDependencies ks E deps = new"
    using h(1) by (simp add: GetTransitiveDependencies_def)
  show "distinct (map GoSumEntry.ModulePath (GetTransitiveDependencies ks E deps))"
    using h(2) eq by simp
  show "\<forall>e \<in> set (GetTransitiveDependencies ks E deps).
           representative ks E (GoSumEntry.ModulePath e) = Some e \<and> GoSumEntry.ModulePath e \<notin> set deps"
    using h(3) eq D by simp
  have "GoSumEntry.ModulePath ` set new = {p \<in> lock_paths E. p \<notin> set deps}"
    unfolding h(4) D using range_order_paths [OF assms, of "\<lambda>p. p \<notin> set deps"] .
  then show "GoSumEntry.ModulePath ` set (GetTransitiveDependencies ks E deps) = lock_paths E - set deps"
    using eq by auto
qed


lemma node_frame [simp]:
  "Heap (BuildEnhanced_node g name) = Heap g"
  "Root (BuildEnhanced_node g name) = Root g"
  "AllNodes (BuildEnhanced_node g name) = AllNodes g"
  "GoSumEntries (BuildEnhanced_node g name) = GoSumEntries g"
  "EnhancedDependencyGraph.Conflicts (BuildEnhanced_node g name)
     = EnhancedDependencyGraph.Conflicts g"
  "EnhancedDependencyGraph.SecurityIssues (BuildEnhanced_node g name)
     = EnhancedDependencyGraph.SecurityIssues g"
  "LicensesSummary (BuildEnhanced_node g name) = LicensesSummary g"
  by (simp_all add: BuildEnhanced_node_def Let_def split: option.splits)

lemma nodes_frame [simp]:
  "Heap (foldl BuildEnhanced_node g ks) = Heap g"
  "Root (foldl BuildEnhanced_node g ks) = Root g"
  "AllNodes (foldl BuildEnhanced_node g ks) = AllNodes g"
  "GoSumEntries (foldl BuildEnhanced_node g ks) = GoSumEntries g"
  "EnhancedDependencyGraph.Conflicts (foldl BuildEnhanced_node g ks)
     = EnhancedDependencyGraph.Conflicts g"
  "EnhancedDependencyGraph.SecurityIssues (foldl BuildEnhanced_node g ks)
     = EnhancedDependencyGraph.SecurityIssues g"
  "LicensesSummary (foldl BuildEnhanced_node g ks) = LicensesSummary g"
  by (induction ks arbitrary: g) simp_all

lemma node_entry:
  "EnhancedNodes (BuildEnhanced_node g name) k = Some n \<Longrightarrow>
   EnhancedNodes g k = Some n \<or>
   (k = name \<and> AllNodes g k = Some (Node n) \<and> EnhancedNode.Conflicts n = []
      \<and> EnhancedNode.SecurityIssues n = [] \<and> License n = [])"
  by (auto simp: BuildEnhanced_node_def Let_def split: option.splits if_splits)

lemma node_dom:
  "dom (EnhancedNodes (BuildEnhanced_node g name))
     = dom (EnhancedNodes g) \<union> ({name} \<inter> dom (AllNodes g))"
  by (auto simp: BuildEnhanced_node_def Let_def split: option.splits if_splits)

lemma nodes_dom:
  "dom (EnhancedNodes (foldl BuildEnhanced_node g ks))
     = dom (EnhancedNodes g) \<union> (set ks \<inter> dom (AllNodes g))"
  by (induction ks arbitrary: g) (auto simp: node_dom)

lemma nodes_entry:
  "EnhancedNodes (foldl BuildEnhanced_node g ks) k = Some n \<Longrightarrow>
   EnhancedNodes g k = Some n \<or>
   (AllNodes g k = Some (Node n) \<and> EnhancedNode.Conflicts n = []
      \<and> EnhancedNode.SecurityIssues n = [] \<and> License n = [])"
proof (induction ks arbitrary: g)
  case Nil
  then show ?case by simp
next
  case (Cons a ks)
  from Cons.IH [of "BuildEnhanced_node g a"] Cons.prems
  show ?case by (auto dest: node_entry)
qed

lemma transitive_old:
  "GoSumEntry.ModulePath t \<in> dom (EnhancedNodes g) \<Longrightarrow> BuildEnhanced_transitive g t = g"
  by (auto simp: BuildEnhanced_transitive_def)

lemma transitive_new:
  assumes "GoSumEntry.ModulePath t \<notin> dom (EnhancedNodes g)"
  shows "Heap (BuildEnhanced_transitive g t) = Heap g @ [synth_node t]"
    and "AllNodes (BuildEnhanced_transitive g t) = (AllNodes g)(GoSumEntry.ModulePath t \<mapsto> length (Heap g))"
    and "EnhancedNodes (BuildEnhanced_transitive g t)
          = (EnhancedNodes g)(GoSumEntry.ModulePath t \<mapsto> synth_enhanced (length (Heap g)) t)"
  using assms
  by (auto simp: BuildEnhanced_transitive_def Let_def synth_node_def synth_enhanced_def
      split: option.splits)

lemma transitive_frame [simp]:
  "Root (BuildEnhanced_transitive g t) = Root g"
  "GoSumEntries (BuildEnhanced_transitive g t) = GoSumEntries g"
  "EnhancedDependencyGraph.Conflicts (BuildEnhanced_transitive g t)
     = EnhancedDependencyGraph.Conflicts g"
  "EnhancedDependencyGraph.SecurityIssues (BuildEnhanced_transitive g t)
     = EnhancedDependencyGraph.SecurityIssues g"
  "LicensesSummary (BuildEnhanced_transitive g t) = LicensesSummary g"
  by (simp_all add: BuildEnhanced_transitive_def Let_def split: option.splits)

lemma transitives_frame [simp]:
  "Root (foldl BuildEnhanced_transitive g ts) = Root g"
  "GoSumEntries (foldl BuildEnhanced_transitive g ts) = GoSumEntries g"
  "EnhancedDependencyGraph.Conflicts (foldl BuildEnhanced_transitive g ts)
     = EnhancedDependencyGraph.Conflicts g"
  "EnhancedDependencyGraph.SecurityIssues (foldl BuildEnhanced_transitive g ts)
     = EnhancedDependencyGraph.SecurityIssues g"
  "LicensesSummary (foldl BuildEnhanced_transitive g ts) = LicensesSummary g"
  by (induction ts arbitrary: g) simp_all

lemma transitive_Heap: "\<exists>ext. Heap (BuildEnhanced_transitive g t) = Heap g @ ext"
  by (cases "GoSumEntry.ModulePath t \<in> dom (EnhancedNodes g)") (simp_all add: transitive_old transitive_new)

lemma transitives_Heap: "\<exists>ext. Heap (foldl BuildEnhanced_transitive g ts) = Heap g @ ext"
proof (induction ts arbitrary: g)
  case Nil
  then show ?case by simp
next
  case (Cons t ts)
  obtain e1 where "Heap (BuildEnhanced_transitive g t) = Heap g @ e1"
    using transitive_Heap by blast
  moreover obtain e2 where "Heap (foldl BuildEnhanced_transitive (BuildEnhanced_transitive g t) ts)
      = Heap (BuildEnhanced_transitive g t) @ e2"
    using Cons.IH by blast
  ultimately show ?case by simp
qed

lemma transitive_dom_enhanced:
  "dom (EnhancedNodes (BuildEnhanced_transitive g t)) = insert (GoSumEntry.ModulePath t) (dom (EnhancedNodes g))"
  by (cases "GoSumEntry.ModulePath t \<in> dom (EnhancedNodes g)") (auto simp: transitive_old transitive_new)

lemma transitive_dom_all:
  "dom (AllNodes (BuildEnhanced_transitive g t))
     = dom (AllNodes g) \<union> ({GoSumEntry.ModulePath t} - dom (EnhancedNodes g))"
  by (cases "GoSumEntry.ModulePath t \<in> dom (EnhancedNodes g)") (auto simp: transitive_old transitive_new)

lemma transitives_dom_enhanced:
  "dom (EnhancedNodes (foldl BuildEnhanced_transitive g ts)) = dom (EnhancedNodes g) \<union> GoSumEntry.ModulePath ` set ts"
  by (induction ts arbitrary: g) (auto simp: transitive_dom_enhanced)

lemma transitives_dom_all:
  "dom (AllNodes (foldl BuildEnhanced_transitive g ts))
     = dom (AllNodes g) \<union> (GoSumEntry.ModulePath ` set ts - dom (EnhancedNodes g))"
proof (induction ts arbitrary: g)
  case Nil
  then show ?case by simp
next
  case (Cons t ts)
  have "dom (AllNodes (foldl BuildEnhanced_transitive (BuildEnhanced_transitive g t) ts))
      = dom (AllNodes g) \<union> ({GoSumEntry.ModulePath t} - dom (EnhancedNodes g))
        \<union> (GoSumEntry.ModulePath ` set ts - insert (GoSumEntry.ModulePath t) (dom (EnhancedNodes g)))"
    by (simp only: Cons.IH transitive_dom_all transitive_dom_enhanced)
  then show ?case by auto
qed

lemma transitive_length:
  "length (Heap (BuildEnhanced_transitive g t))
     = length (Heap g) + card ({GoSumEntry.ModulePath t} - dom (EnhancedNodes g))"
proof (cases "GoSumEntry.ModulePath t \<in> dom (EnhancedNodes g)")
  case True
  then show ?thesis by (simp add: transitive_old)
next
  case False
  then have "{GoSumEntry.ModulePath t} - dom (EnhancedNodes g) = {GoSumEntry.ModulePath t}" by auto
  then show ?thesis using False by (simp add: transitive_new)
qed

lemma card_split:
  assumes "finite S"
  shows "card (insert x S - X) = card ({x} - X) + card (S - insert x X)"
proof (cases "x \<in> X")
  case True
  have "insert x S - X = S - insert x X" using True by blast
  moreover have "{x} - X = {}" using True by blast
  ultimately show ?thesis by (simp only: card.empty add_0)
next
  case False
  have a: "insert x S - X = insert x (S - insert x X)" using False by blast
  have b: "{x} - X = {x}" using False by blast
  have c: "x \<notin> S - insert x X" by blast
  have d: "finite (S - insert x X)" using assms by blast
  show ?thesis unfolding a b using card_insert_disjoint [OF d c] by simp
qed

lemma transitives_length:
  "length (Heap (foldl BuildEnhanced_transitive g ts))
     = length (Heap g) + card (GoSumEntry.ModulePath ` set ts - dom (EnhancedNodes g))"
proof (induction ts arbitrary: g)
  case Nil
  then show ?case by simp
next
  case (Cons t ts)
  let ?X = "dom (EnhancedNodes g)"
  let ?g1 = "BuildEnhanced_transitive g t"
  have img: "GoSumEntry.ModulePath ` set (t # ts) = insert (GoSumEntry.ModulePath t) (GoSumEntry.ModulePath ` set ts)" by simp
  have split: "card (GoSumEntry.ModulePath ` set (t # ts) - ?X)
      = card ({GoSumEntry.ModulePath t} - ?X) + card (GoSumEntry.ModulePath ` set ts - insert (GoSumEntry.ModulePath t) ?X)"
    unfolding img by (rule card_split) simp
  have "foldl BuildEnhanced_transitive g (t # ts) = foldl BuildEnhanced_transitive ?g1 ts"
    by simp
  then have "length (Heap (foldl BuildEnhanced_transitive g (t # ts)))
      = length (Heap ?g1) + card (GoSumEntry.ModulePath ` set ts - dom (EnhancedNodes ?g1))"
    by (simp only: Cons.IH [of ?g1])
  also have "\<dots> = length (Heap g) + card ({GoSumEntry.ModulePath t} - ?X) + card (GoSumEntry.ModulePath ` set ts - insert (GoSumEntry.ModulePath t) ?X)"
    by (simp only: transitive_length transitive_dom_enhanced)
  also have "\<dots> = length (Heap g) + card (GoSumEntry.ModulePath ` set (t # ts) - ?X)"
    by (simp only: split add.assoc)
  finally show ?case .
qed

lemma transitive_keep:
  "k \<in> dom (EnhancedNodes g) \<Longrightarrow>
   EnhancedNodes (BuildEnhanced_transitive g t) k = EnhancedNodes g k
   \<and> AllNodes (BuildEnhanced_transitive g t) k = AllNodes g k"
  by (cases "GoSumEntry.ModulePath t \<in> dom (EnhancedNodes g)") (auto simp: transitive_old transitive_new)

lemma transitives_keep:
  "k \<in> dom (EnhancedNodes g) \<Longrightarrow>
   EnhancedNodes (foldl BuildEnhanced_transitive g ts) k = EnhancedNodes g k
   \<and> AllNodes (foldl BuildEnhanced_transitive g ts) k = AllNodes g k"
proof (induction ts arbitrary: g)
  case Nil
  then show ?case by simp
next
  case (Cons t ts)
  have "k \<in> dom (EnhancedNodes (BuildEnhanced_transitive g t))"
    using Cons.prems by (simp add: transitive_dom_enhanced)
  from Cons.IH [OF this] show ?case
    using transitive_keep [OF Cons.prems] by simp
qed

lemma transitives_new:
  assumes "distinct (map GoSumEntry.ModulePath ts)" and "t \<in> set ts" and "GoSumEntry.ModulePath t \<notin> dom (EnhancedNodes g)"
  shows "\<exists>a. length (Heap g) \<le> a
    \<and> a < length (Heap (foldl BuildEnhanced_transitive g ts))
    \<and> AllNodes (foldl BuildEnhanced_transitive g ts) (GoSumEntry.ModulePath t) = Some a
    \<and> Heap (foldl BuildEnhanced_transitive g ts) ! a = synth_node t
    \<and> EnhancedNodes (foldl BuildEnhanced_transitive g ts) (GoSumEntry.ModulePath t) = Some (synth_enhanced a t)"
  using assms
proof (induction ts arbitrary: g)
  case Nil
  then show ?case by simp
next
  case (Cons u ts)
  let ?g1 = "BuildEnhanced_transitive g u"
  let ?g' = "foldl BuildEnhanced_transitive ?g1 ts"
  show ?case
  proof (cases "t = u")
    case True
    let ?a = "length (Heap g)"
    have new: "Heap ?g1 = Heap g @ [synth_node t]"
      "AllNodes ?g1 (GoSumEntry.ModulePath t) = Some ?a" "EnhancedNodes ?g1 (GoSumEntry.ModulePath t) = Some (synth_enhanced ?a t)"
      using transitive_new [of u g] Cons.prems(3) True by simp_all
    then have "GoSumEntry.ModulePath t \<in> dom (EnhancedNodes ?g1)" by auto
    from transitives_keep [OF this, of ts]
    have keep: "EnhancedNodes ?g' (GoSumEntry.ModulePath t) = Some (synth_enhanced ?a t)" "AllNodes ?g' (GoSumEntry.ModulePath t) = Some ?a"
      using new by simp_all
    obtain ext where ext: "Heap ?g' = Heap ?g1 @ ext"
      using transitives_Heap by blast
    have "Heap ?g' ! ?a = synth_node t" "?a < length (Heap ?g')"
      using ext new(1) by (simp_all add: nth_append)
    then show ?thesis using keep by auto
  next
    case False
    then have t: "t \<in> set ts" using Cons.prems(2) by simp
    then have "GoSumEntry.ModulePath t \<in> GoSumEntry.ModulePath ` set ts" by simp
    then have ne: "GoSumEntry.ModulePath t \<noteq> GoSumEntry.ModulePath u" using Cons.prems(1) by auto
    have d: "distinct (map GoSumEntry.ModulePath ts)" using Cons.prems(1) by simp
    have "GoSumEntry.ModulePath t \<notin> dom (EnhancedNodes ?g1)"
      using Cons.prems(3) ne by (simp add: transitive_dom_enhanced)
    from Cons.IH [OF d t this] obtain a where
      a: "length (Heap ?g1) \<le> a" "a < length (Heap ?g')" "AllNodes ?g' (GoSumEntry.ModulePath t) = Some a"
         "Heap ?g' ! a = synth_node t" "EnhancedNodes ?g' (GoSumEntry.ModulePath t) = Some (synth_enhanced a t)"
      by blast
    have "length (Heap g) \<le> length (Heap ?g1)"
      by (simp add: transitive_length)
    then show ?thesis using a by auto
  qed
qed


lemma BuildDependencyGraph_Inr:
  assumes "BuildDependencyGraph modFile = Inr g"
  obtains path where "Module modFile = Some path"
    and "g = foldl BuildDependencyGraph_require
      \<lparr>Heap = [\<lparr>Name = path, Version = ''main'', Direct = True, Children = []\<rparr>],
       Root = 0, AllNodes = [path \<mapsto> 0], ModuleName = path,
       ModuleGoVersion = (case Go modFile of None \<Rightarrow> [] | Some v \<Rightarrow> v)\<rparr> (Require modFile)"
  using assms by (auto simp: BuildDependencyGraph_def split: option.splits)

lemma BuildDependencyGraph_wf:
  assumes "BuildDependencyGraph modFile = Inr g"
  shows "wf_graph g"
proof -
  from assms obtain path where g: "g = foldl BuildDependencyGraph_require
      \<lparr>Heap = [\<lparr>Name = path, Version = ''main'', Direct = True, Children = []\<rparr>],
       Root = 0, AllNodes = [path \<mapsto> 0], ModuleName = path,
       ModuleGoVersion = (case Go modFile of None \<Rightarrow> [] | Some v \<Rightarrow> v)\<rparr> (Require modFile)"
    by (rule BuildDependencyGraph_Inr)
  show ?thesis unfolding g
    by (rule build_wf) (auto simp: wf_graph_def split: if_splits)
qed

lemma BuildDependencyGraph_dom:
  assumes "BuildDependencyGraph modFile = Inr g"
  shows "dom (AllNodes g) = (case Module modFile of None \<Rightarrow> {} | Some path \<Rightarrow> {path})
           \<union> Mod_Path ` set (Require modFile)"
proof -
  from assms obtain path where m: "Module modFile = Some path" and g: "g = foldl BuildDependencyGraph_require
      \<lparr>Heap = [\<lparr>Name = path, Version = ''main'', Direct = True, Children = []\<rparr>],
       Root = 0, AllNodes = [path \<mapsto> 0], ModuleName = path,
       ModuleGoVersion = (case Go modFile of None \<Rightarrow> [] | Some v \<Rightarrow> v)\<rparr> (Require modFile)"
    by (rule BuildDependencyGraph_Inr)
  show ?thesis unfolding g build_dom by (simp add: m)
qed

lemma finite_lock_paths: "range_order ks E \<Longrightarrow> finite (lock_paths E)"
proof -
  assume "range_order ks E"
  then have "finite (dom E)" by (metis List.finite_set range_order_def)
  then show ?thesis by (simp add: lock_paths_def finite_ran)
qed

text \<open>The graph that \<open>BuildEnhancedDependencyGraph\<close> returns, step by step.\<close>

lemma BuildEnhanced_Inr:
  assumes "BuildDependencyGraph modFile = Inr base" and "ParseGoSum goSum = Inr entries"
  shows "BuildEnhancedDependencyGraph modFile goSum ks\<^sub>1 ks\<^sub>2 =
    Inr (foldl BuildEnhanced_transitive
          (foldl BuildEnhanced_node
            \<lparr>Heap = Heap base, Root = Root base, AllNodes = AllNodes base,
             ModuleName = ModuleName base, ModuleGoVersion = ModuleGoVersion base,
             EnhancedNodes = Map.empty, GoSumEntries = entries,
             Conflicts = [], SecurityIssues = [], TotalSize = 0, BuildTime = 0,
             LicensesSummary = Map.empty\<rparr> ks\<^sub>1)
          (GetTransitiveDependencies ks\<^sub>2 entries (GetDirectDependencies modFile)))"
  using assms by (simp add: BuildEnhancedDependencyGraph_def Let_def)

text \<open>
  C1.  For a manifest with a module line and the lock entries read from the lock file,
  whatever the orders of the two map loops: the keys of \<open>AllNodes\<close> of the enriched graph
  are those of the base graph (the module path and the declared requirement paths)
  together with the module paths of the lock entries that are not among them, and
  \<open>EnhancedNodes\<close> has the same keys; the store grows by exactly one node for every such
  lock-only path, however many lock entries share the path; that node is not direct and
  takes its version, and its enhanced node its hash, from the first lock entry of that
  path in the order of the loop; every node of the base graph is kept as it was, so the
  number of nodes does not decrease.
\<close>

theorem C1_enrichment:
  assumes m: "Module modFile = Some path"
    and b: "BuildDependencyGraph modFile = Inr base"
    and e: "ParseGoSum goSum = Inr entries"
    and o1: "range_order ks\<^sub>1 (AllNodes base)"
    and o2: "range_order ks\<^sub>2 entries"
  shows "\<exists>g. BuildEnhancedDependencyGraph modFile goSum ks\<^sub>1 ks\<^sub>2 = Inr g
    \<and> dom (AllNodes base) = insert path (Mod_Path ` set (Require modFile))
    \<and> dom (AllNodes g) = dom (AllNodes base) \<union> (lock_paths entries - dom (AllNodes base))
    \<and> dom (EnhancedNodes g) = dom (AllNodes g)
    \<and> length (Heap g) = length (Heap base) + card (lock_paths entries - dom (AllNodes base))
    \<and> (\<forall>p \<in> lock_paths entries - dom (AllNodes base). \<exists>a e.
          representative ks\<^sub>2 entries p = Some e
          \<and> length (Heap base) \<le> a \<and> a < length (Heap g)
          \<and> AllNodes g p = Some a
          \<and> Heap g ! a = \<lparr>Name = p, Version = GoSumEntry.Version e, Direct = False, Children = []\<rparr>
          \<and> EnhancedNodes g p = Some \<lparr>Node = a, Hash = GoSumEntry.Hash e, Transitive = [],
               EnhancedNode.Conflicts = [], EnhancedNode.SecurityIssues = [],
               License = [], LastUpdate = 0, IsOutdated = False, UpdateAvailable = []\<rparr>)
    \<and> (\<forall>k a. AllNodes base k = Some a \<longrightarrow> AllNodes g k = Some a \<and> Heap g ! a = Heap base ! a)
    \<and> len_map (AllNodes base) \<le> len_map (AllNodes g)"
proof -
  define g0 where "g0 = \<lparr>Heap = Heap base, Root = Root base, AllNodes = AllNodes base,
             ModuleName = ModuleName base, ModuleGoVersion = ModuleGoVersion base,
             EnhancedNodes = Map.empty, GoSumEntries = entries,
             Conflicts = [], SecurityIssues = [], TotalSize = 0, BuildTime = 0,
             LicensesSummary = Map.empty\<rparr>"
  define g1 where "g1 = foldl BuildEnhanced_node g0 ks\<^sub>1"
  define deps where "deps = GetDirectDependencies modFile"
  define ts where "ts = GetTransitiveDependencies ks\<^sub>2 entries deps"
  define g where "g = foldl BuildEnhanced_transitive g1 ts"
  let ?B = "dom (AllNodes base)" and ?L = "lock_paths entries"
  have build: "BuildEnhancedDependencyGraph modFile goSum ks\<^sub>1 ks\<^sub>2 = Inr g"
    unfolding g_def ts_def deps_def g1_def g0_def by (rule BuildEnhanced_Inr [OF b e])
  have domB: "?B = insert path (Mod_Path ` set (Require modFile))"
    using BuildDependencyGraph_dom [OF b] m by simp
  have g1: "Heap g1 = Heap base" "AllNodes g1 = AllNodes base"
    by (simp_all add: g1_def g0_def)
  have en1: "dom (EnhancedNodes g1) = ?B"
    using o1 unfolding g1_def nodes_dom by (simp add: g0_def range_order_def)
  have "set deps \<subseteq> Mod_Path ` set (Require modFile)"
    by (auto simp: deps_def GetDirectDependencies_eq)
  then have deps: "set deps \<subseteq> ?B" using domB by auto
  note tp = GetTransitiveDependencies_props [OF o2, of deps, folded ts_def]
  have new: "GoSumEntry.ModulePath ` set ts - ?B = ?L - ?B"
    using deps tp(3) by auto
  have domA: "dom (AllNodes g) = ?B \<union> (?L - ?B)"
    unfolding g_def transitives_dom_all en1 g1 new ..
  have domE: "dom (EnhancedNodes g) = dom (AllNodes g)"
    unfolding domA unfolding g_def transitives_dom_enhanced en1 using deps tp(3) by auto
  have len: "length (Heap g) = length (Heap base) + card (?L - ?B)"
    unfolding g_def transitives_length en1 g1 new ..
  have synth: "\<forall>p \<in> ?L - ?B. \<exists>a e.
          representative ks\<^sub>2 entries p = Some e
          \<and> length (Heap base) \<le> a \<and> a < length (Heap g)
          \<and> AllNodes g p = Some a
          \<and> Heap g ! a = \<lparr>Name = p, Version = GoSumEntry.Version e, Direct = False, Children = []\<rparr>
          \<and> EnhancedNodes g p = Some \<lparr>Node = a, Hash = GoSumEntry.Hash e, Transitive = [],
               EnhancedNode.Conflicts = [], EnhancedNode.SecurityIssues = [],
               License = [], LastUpdate = 0, IsOutdated = False, UpdateAvailable = []\<rparr>"
  proof
    fix p assume p: "p \<in> ?L - ?B"
    then have "p \<in> GoSumEntry.ModulePath ` set ts" using new by blast
    then obtain t where t: "t \<in> set ts" "GoSumEntry.ModulePath t = p" by auto
    have rep: "representative ks\<^sub>2 entries p = Some t" using tp(2) t by auto
    have "GoSumEntry.ModulePath t \<notin> dom (EnhancedNodes g1)" using p t en1 by simp
    from transitives_new [OF tp(1) t(1) this] obtain a where
      "length (Heap g1) \<le> a" "a < length (Heap g)" "AllNodes g (GoSumEntry.ModulePath t) = Some a"
      "Heap g ! a = synth_node t" "EnhancedNodes g (GoSumEntry.ModulePath t) = Some (synth_enhanced a t)"
      unfolding g_def by blast
    then show "\<exists>a e.
          representative ks\<^sub>2 entries p = Some e
          \<and> length (Heap base) \<le> a \<and> a < length (Heap g)
          \<and> AllNodes g p = Some a
          \<and> Heap g ! a = \<lparr>Name = p, Version = GoSumEntry.Version e, Direct = False, Children = []\<rparr>
          \<and> EnhancedNodes g p = Some \<lparr>Node = a, Hash = GoSumEntry.Hash e, Transitive = [],
               EnhancedNode.Conflicts = [], EnhancedNode.SecurityIssues = [],
               License = [], LastUpdate = 0, IsOutdated = False, UpdateAvailable = []\<rparr>"
      using rep t(2) g1(1) unfolding synth_node_def synth_enhanced_def by auto
  qed
  have wfb: "wf_graph base" by (rule BuildDependencyGraph_wf [OF b])
  obtain ext where ext: "Heap g = Heap base @ ext"
    using transitives_Heap [of g1 ts] unfolding g_def g1 by blast
  have keep: "\<forall>k a. AllNodes base k = Some a \<longrightarrow> AllNodes g k = Some a \<and> Heap g ! a = Heap base ! a"
  proof (intro allI impI)
    fix k a assume ka: "AllNodes base k = Some a"
    then have "k \<in> dom (EnhancedNodes g1)" using en1 by auto
    from transitives_keep [OF this, of ts] have "AllNodes g k = Some a"
      using ka g1 by (simp add: g_def)
    moreover have "a < length (Heap base)" using wfb ka by (simp add: wf_graph_def)
    ultimately show "AllNodes g k = Some a \<and> Heap g ! a = Heap base ! a"
      using ext by (simp add: nth_append)
  qed
  have "finite (dom (AllNodes g))"
    unfolding domA using o1 finite_lock_paths [OF o2]
    by (metis List.finite_set finite_Diff finite_UnI range_order_def)
  moreover have "?B \<subseteq> dom (AllNodes g)" using domA by blast
  ultimately have "card ?B \<le> card (dom (AllNodes g))" by (rule card_mono)
  then have mono: "len_map (AllNodes base) \<le> len_map (AllNodes g)"
    by (simp add: len_map_def)
  show ?thesis
    using build domB domA domE len synth keep mono by blast
qed

section \<open>The example, evaluated\<close>

lemma l1: "TrimSpace ''moduleA v1.2.0 h1:aaa='' = ''moduleA v1.2.0 h1:aaa=''" by code_simp

lemma f1: "Fields ''moduleA v1.2.0 h1:aaa='' = [''moduleA'', ''v1.2.0'', ''h1:aaa='']" by code_simp

lemma l2: "TrimSpace ''moduleA v1.2.0/go.mod h1:aab='' = ''moduleA v1.2.0/go.mod h1:aab=''" by code_simp

lemma f2: "Fields ''moduleA v1.2.0/go.mod h1:aab='' = [''moduleA'', ''v1.2.0/go.mod'', ''h1:aab='']" by code_simp

lemma l3: "TrimSpace ''moduleB v0.3.0 h1:bbb='' = ''moduleB v0.3.0 h1:bbb=''" by code_simp

lemma f3: "Fields ''moduleB v0.3.0 h1:bbb='' = [''moduleB'', ''v0.3.0'', ''h1:bbb='']" by code_simp

lemma l4: "TrimSpace ''moduleC v1.0.0 h1:ccc='' = ''moduleC v1.0.0 h1:ccc=''" by code_simp

lemma f4: "Fields ''moduleC v1.0.0 h1:ccc='' = [''moduleC'', ''v1.0.0'', ''h1:ccc='']" by code_simp

lemma ParseGoSum_scenario: "ParseGoSum scenario_lock = Inr scenario_entries"
  by (simp add: ParseGoSum_def scenario_lock_def scenario_entries_def ParseGoSum_line_def
      l1 f1 l2 f2 l3 f3 l4 f4 HasSuffix_def Let_def)

lemma BuildDependencyGraph_scenario: "BuildDependencyGraph scenario_manifest = Inr scenario_base"
  by (simp add: BuildDependencyGraph_def scenario_manifest_def scenario_base_def
      BuildDependencyGraph_require_def Let_def numeral_2_eq_2)

lemma range_order_scenario_nodes: "range_order scenario_nodes_order (AllNodes scenario_base)"
  by (auto simp: range_order_def scenario_nodes_order_def scenario_base_def)

lemma range_order_scenario_lock: "range_order scenario_lock_order scenario_entries"
  by (auto simp: range_order_def scenario_lock_order_def scenario_entries_def)

lemma GetTransitiveDependencies_scenario:
  "GetTransitiveDependencies scenario_lock_order scenario_entries
     (GetDirectDependencies scenario_manifest)
   = [\<lparr>GoSumEntry.ModulePath = ''moduleC'', GoSumEntry.Version = ''v1.0.0'', GoSumEntry.Hash = ''h1:ccc=''\<rparr>,
      \<lparr>GoSumEntry.ModulePath = ''moduleB'', GoSumEntry.Version = ''v0.3.0'', GoSumEntry.Hash = ''h1:bbb=''\<rparr>]"
  by (simp add: GetTransitiveDependencies_def GetDirectDependencies_def scenario_manifest_def
      scenario_lock_order_def scenario_entries_def lookup_bool_def)

lemma BuildEnhanced_scenario:
  "BuildEnhancedDependencyGraph scenario_manifest scenario_lock
     scenario_nodes_order scenario_lock_order = Inr scenario_graph"
  unfolding BuildEnhanced_Inr [OF BuildDependencyGraph_scenario ParseGoSum_scenario]
    GetTransitiveDependencies_scenario
  by (simp add: scenario_base_def scenario_nodes_order_def scenario_graph_def
      BuildEnhanced_node_def BuildEnhanced_transitive_def plain_enhanced_def Let_def
      scenario_entries_def numeral_2_eq_2 numeral_3_eq_3)

lemma lock_paths_range:
  assumes "range_order ks E"
  shows "lock_paths E = (\<lambda>k. GoSumEntry.ModulePath (the (E k))) ` set ks"
proof -
  have "ran E = (\<lambda>k. the (E k)) ` dom E"
    by (force simp: ran_def dom_def image_iff)
  then show ?thesis
    using assms by (simp add: lock_paths_def range_order_def image_image)
qed

lemma lock_paths_scenario:
  "lock_paths scenario_entries = {''moduleA'', ''moduleB'', ''moduleC''}"
proof -
  have "lock_paths scenario_entries = {''moduleC'', ''moduleA'', ''moduleB''}"
    unfolding lock_paths_range [OF range_order_scenario_lock]
    by (simp add: scenario_lock_order_def scenario_entries_def)
  then show ?thesis by blast
qed

theorem C1_enrichment_witness:
  "Module scenario_manifest = Some ''example.com/app''
   \<and> BuildDependencyGraph scenario_manifest = Inr scenario_base
   \<and> ParseGoSum scenario_lock = Inr scenario_entries
   \<and> range_order scenario_nodes_order (AllNodes scenario_base)
   \<and> range_order scenario_lock_order scenario_entries
   \<and> (\<exists>g. BuildEnhancedDependencyGraph scenario_manifest scenario_lock
               scenario_nodes_order scenario_lock_order = Inr g
        \<and> dom (AllNodes g) = {''example.com/app'', ''moduleA'', ''moduleB'', ''moduleC''}
        \<and> dom (EnhancedNodes g) = dom (AllNodes g)
        \<and> length (Heap g) = 4
        \<and> len_map (AllNodes scenario_base) \<le> len_map (AllNodes g))"
proof -
  have m: "Module scenario_manifest = Some ''example.com/app''"
    by (simp add: scenario_manifest_def)
  note h = m BuildDependencyGraph_scenario ParseGoSum_scenario
    range_order_scenario_nodes range_order_scenario_lock
  have db: "dom (AllNodes scenario_base) = {''example.com/app'', ''moduleA'', ''moduleB''}"
    by (auto simp: scenario_base_def)
  have new: "lock_paths scenario_entries - dom (AllNodes scenario_base) = {''moduleC''}"
    unfolding lock_paths_scenario db by simp
  from C1_enrichment [OF h] obtain g where
    g: "BuildEnhancedDependencyGraph scenario_manifest scenario_lock
          scenario_nodes_order scenario_lock_order = Inr g"
      "dom (AllNodes g) = dom (AllNodes scenario_base)
         \<union> (lock_paths scenario_entries - dom (AllNodes scenario_base))"
      "dom (EnhancedNodes g) = dom (AllNodes g)"
      "length (Heap g) = length (Heap scenario_base)
         + card (lock_paths scenario_entries - dom (AllNodes scenario_base))"
      "len_map (AllNodes scenario_base) \<le> len_map (AllNodes g)"
    by (elim exE conjE) (rule that; assumption)
  have "dom (AllNodes g) = {''example.com/app'', ''moduleA'', ''moduleB'', ''moduleC''}"
    by (simp only: g(2) new) (simp add: db insert_commute)
  moreover have "length (Heap g) = 4"
    by (simp only: g(4) new) (simp add: scenario_base_def)
  ultimately have "\<exists>g. BuildEnhancedDependencyGraph scenario_manifest scenario_lock
               scenario_nodes_order scenario_lock_order = Inr g
        \<and> dom (AllNodes g) = {''example.com/app'', ''moduleA'', ''moduleB'', ''moduleC''}
        \<and> dom (EnhancedNodes g) = dom (AllNodes g)
        \<and> length (Heap g) = 4
        \<and> len_map (AllNodes scenario_base) \<le> len_map (AllNodes g)"
    using g(1,3,5) by (intro exI [of _ g]) simp
  with h show ?thesis by (intro conjI)
qed

end
